theory Spec2Isabelle
  imports Main "HOL-Library.Multiset"
begin

section \<open>Conventions of the embedding\<close>

text \<open>
  The reactive core of jinjx-js consists of three classes: \<^verbatim>\<open>JinjxSignal\<close>
  (src/reactive/jinjx-signal.ts), \<^verbatim>\<open>JinjxSignalList\<close> (jinjx-signal-list.ts) and
  \<^verbatim>\<open>JinjxScope\<close> (jinjx-scope.ts). Each object is a record of its private fields and
  each method is a function from the state before the call to the state after it
  (paired with the returned value where there is one).

  Callbacks (watchers, cleanup actions) are opaque function references of a type \<open>'f\<close>,
  compared by identity. Calling one is observed through a trace kept next to the fields
  of the object: every call the code makes appends one entry, so that "is invoked",
  "exactly once" and "in order" are statements about that trace. What a call does is
  given by a function \<open>thr\<close>: \<open>thr f = None\<close> when the call of \<open>f\<close> returns,
  \<open>thr f = Some e\<close> when it throws \<open>e\<close> (a callback does the same at each call). No
  class of the core catches an exception, so a callback that throws ends the loop that
  called it and the method that runs the loop. Callbacks are taken not to call back
  into the object that is calling them. The predicates and comparators handed to the
  methods of the list are functions of their arguments that return.

  A JavaScript \<^verbatim>\<open>Set\<close> iterates in insertion order and holds each member once: it is a
  list without duplicates, \<^verbatim>\<open>add\<close> appending a new member and \<^verbatim>\<open>delete\<close> removing it.

  Methods of different classes that share a name carry the prefix of their class:
  \<open>sig_\<close> for the signal, \<open>sl_\<close> for the signal list, \<open>scope_\<close> for the scope.
\<close>

definition set_add :: "'f \<Rightarrow> 'f list \<Rightarrow> 'f list" where
  "set_add f fs = (if f \<in> set fs then fs else fs @ [f])"

definition set_delete :: "'f \<Rightarrow> 'f list \<Rightarrow> 'f list" where
  "set_delete f fs = removeAll f fs"

text \<open>Of the callbacks \<open>ws\<close>, called in this order, those that are called (all up to
  and including the first that throws) and the exception that ends the loop, if any.\<close>

fun reached :: "('f \<Rightarrow> 'e option) \<Rightarrow> 'f list \<Rightarrow> 'f list" where
  "reached thr [] = []"
| "reached thr (w # ws) = (case thr w of Some e \<Rightarrow> [w] | None \<Rightarrow> w # reached thr ws)"

fun raised :: "('f \<Rightarrow> 'e option) \<Rightarrow> 'f list \<Rightarrow> 'e option" where
  "raised thr [] = None"
| "raised thr (w # ws) = (case thr w of Some e \<Rightarrow> Some e | None \<Rightarrow> raised thr ws)"

text \<open>What a method that ends with a notification hands to its caller: the exception,
  or the value \<open>r\<close> it returns.\<close>

definition completes :: "'e option \<Rightarrow> 'r \<Rightarrow> 'e + 'r" where
  "completes ex r = (case ex of Some e \<Rightarrow> Inl e | None \<Rightarrow> Inr r)"

definition no_throw :: "string \<Rightarrow> string option" where
  "no_throw f = None"

subsection \<open>The language on the element type\<close>

text \<open>
  The classes are generic in the type \<open>'a\<close> of their values. What the language does on
  such values is not part of the repository and is a parameter \<open>J\<close>:
  \<open>strictEquals\<close> is \<^verbatim>\<open>===\<close> (it is not reflexive: \<^verbatim>\<open>NaN === NaN\<close> is false),
  \<open>isUndefined\<close> tells the value \<^verbatim>\<open>undefined\<close>, \<open>defaultCompare\<close> is the order
  \<^verbatim>\<open>sort\<close> uses when it is given no comparator (the order of the string conversions),
  and \<open>engineSort\<close> is what the engine at hand makes of a comparator that is not a
  consistent ordering, where the language leaves the resulting order to the engine.
  A comparator returns a number, of which only the sign matters.
\<close>

record 'a lang =
  strictEquals :: "'a \<Rightarrow> 'a \<Rightarrow> bool"
  isUndefined :: "'a \<Rightarrow> bool"
  defaultCompare :: "'a \<Rightarrow> 'a \<Rightarrow> int"
  engineSort :: "('a \<Rightarrow> 'a \<Rightarrow> int) \<Rightarrow> 'a list \<Rightarrow> 'a list"

section \<open>JinjxSignal\<close>

text \<open>One call \<^verbatim>\<open>watcher(newVal, oldVal)\<close>; \<open>readBack\<close> is what \<^verbatim>\<open>signal.value\<close>
  holds at the moment of the call.\<close>

record ('a, 'f) signal_call =
  watcher :: 'f
  newArg :: 'a
  oldArg :: 'a
  readBack :: 'a

record ('a, 'f) signal =
  svalue :: 'a
  listeners :: "'f list"
  notified :: "('a, 'f) signal_call list"

definition signal :: "'a \<Rightarrow> ('a, 'f) signal" where
  "signal initialValue = \<lparr>svalue = initialValue, listeners = [], notified = []\<rparr>"

definition sig_get_value :: "('a, 'f) signal \<Rightarrow> 'a" where
  "sig_get_value s = svalue s"


definition listens :: "'f \<Rightarrow> ('a, 'f) signal \<Rightarrow> ('a, 'f) signal" where
  "listens w s = s\<lparr>listeners := set_add w (listeners s)\<rparr>"

definition off :: "'f \<Rightarrow> ('a, 'f) signal \<Rightarrow> ('a, 'f) signal" where
  "off w s = s\<lparr>listeners := set_delete w (listeners s)\<rparr>"




text \<open>The calls one accepted write makes to the watchers \<open>ws\<close>: one each, in this
  order, each with \<open>(v, old)\<close> and each reading back \<open>v\<close>.\<close>

definition write_calls :: "'f list \<Rightarrow> 'a \<Rightarrow> 'a \<Rightarrow> ('a, 'f) signal_call list" where
  "write_calls ws v old =
     map (\<lambda>w. \<lparr>watcher = w, newArg = v, oldArg = old, readBack = v\<rparr>) ws"

definition calls_to :: "'f \<Rightarrow> ('a, 'f) signal_call list \<Rightarrow> nat" where
  "calls_to w cs = length (filter (\<lambda>c. watcher c = w) cs)"

section \<open>JinjxSignalList\<close>

subsection \<open>Arrays by reference\<close>

text \<open>
  The signal list hands arrays to its callers and to its watchers, and mutates its own
  array in place, so arrays live in a store and are named by reference: \<open>arrays s a\<close>
  is the content of the array \<open>a\<close>, and \<open>fresh s\<close> is the next reference not yet in use.
  The store is kept in the same record as the fields of the object (\<open>data\<close>,
  \<open>watchers\<close>, \<open>frozen\<close> for \<^verbatim>\<open>_frozen\<close>, \<open>frozenValue\<close> for \<^verbatim>\<open>_frozenValue\<close>) and the
  trace \<open>calls\<close> of the watcher calls made so far.

  One entry of the trace is one call \<^verbatim>\<open>w(newVal, oldVal)\<close>: the two references passed
  and what the two arrays hold at the moment of the call.
\<close>

type_synonym addr = nat

record ('a, 'f) list_call =
  who :: 'f
  newRef :: addr
  oldRef :: addr
  newSeen :: "'a list"
  oldSeen :: "'a list"

record ('a, 'f) signal_list =
  arrays :: "addr \<Rightarrow> 'a list"
  fresh :: addr
  data :: addr
  watchers :: "'f list"
  frozen :: bool
  frozenValue :: addr
  calls :: "('a, 'f) list_call list"

text \<open>The sequence the collection holds.\<close>

definition items :: "('a, 'f) signal_list \<Rightarrow> 'a list" where
  "items s = arrays s (data s)"

text \<open>A new array with the content \<open>xs\<close>.\<close>

definition alloc :: "'a list \<Rightarrow> ('a, 'f) signal_list \<Rightarrow> addr \<times> ('a, 'f) signal_list" where
  "alloc xs s = (fresh s, s\<lparr>arrays := (arrays s)(fresh s := xs), fresh := Suc (fresh s)\<rparr>)"

text \<open>The array \<open>a\<close> gets the content \<open>xs\<close>, in place. Every in-place operation of
  the language on an array is such a write of the store; so is whatever a client does to an array it
  holds a reference to.\<close>

definition array_write :: "addr \<Rightarrow> 'a list \<Rightarrow> ('a, 'f) signal_list \<Rightarrow> ('a, 'f) signal_list" where
  "array_write a xs s = s\<lparr>arrays := (arrays s)(a := xs)\<rparr>"

subsection \<open>The array operations of the language the class uses\<close>

text \<open>\<^verbatim>\<open>[...arr]\<close> and \<^verbatim>\<open>arr.slice()\<close>: a new array with the same content.\<close>

definition array_spread :: "addr \<Rightarrow> ('a, 'f) signal_list \<Rightarrow> addr \<times> ('a, 'f) signal_list" where
  "array_spread a s = alloc (arrays s a) s"

definition array_slice :: "addr \<Rightarrow> ('a, 'f) signal_list \<Rightarrow> addr \<times> ('a, 'f) signal_list" where
  "array_slice a s = alloc (arrays s a) s"

text \<open>\<^verbatim>\<open>arr.push(...items)\<close> and \<^verbatim>\<open>arr.unshift(...items)\<close> return the new length.\<close>

definition array_push ::
  "addr \<Rightarrow> 'a list \<Rightarrow> ('a, 'f) signal_list \<Rightarrow> nat \<times> ('a, 'f) signal_list" where
  "array_push a its s = (length (arrays s a @ its), array_write a (arrays s a @ its) s)"

definition array_unshift ::
  "addr \<Rightarrow> 'a list \<Rightarrow> ('a, 'f) signal_list \<Rightarrow> nat \<times> ('a, 'f) signal_list" where
  "array_unshift a its s = (length (its @ arrays s a), array_write a (its @ arrays s a) s)"

text \<open>\<^verbatim>\<open>arr.pop()\<close> and \<^verbatim>\<open>arr.shift()\<close>; \<open>None\<close> is \<^verbatim>\<open>undefined\<close>.\<close>

definition array_pop :: "addr \<Rightarrow> ('a, 'f) signal_list \<Rightarrow> 'a option \<times> ('a, 'f) signal_list" where
  "array_pop a s =
     (if arrays s a = [] then (None, s)
      else (Some (last (arrays s a)), array_write a (butlast (arrays s a)) s))"

definition array_shift :: "addr \<Rightarrow> ('a, 'f) signal_list \<Rightarrow> 'a option \<times> ('a, 'f) signal_list" where
  "array_shift a s =
     (case arrays s a of
        [] \<Rightarrow> (None, s)
      | x # rest \<Rightarrow> (Some x, array_write a rest s))"

text \<open>\<^verbatim>\<open>arr.splice(start, deleteCount, ...items)\<close> on integral arguments: a negative
  \<open>start\<close> counts from the end, both are clamped to the array, the removed elements are
  returned.\<close>

definition splice_start :: "int \<Rightarrow> nat \<Rightarrow> nat" where
  "splice_start start len =
     nat (if start < 0 then max (int len + start) 0 else min start (int len))"

definition splice_count :: "int \<Rightarrow> nat \<Rightarrow> nat \<Rightarrow> nat" where
  "splice_count deleteCount len actualStart =
     nat (min (max deleteCount 0) (int len - int actualStart))"

text \<open>The removed elements and the new content of the array.\<close>

definition splice_parts :: "int \<Rightarrow> int \<Rightarrow> 'a list \<Rightarrow> 'a list \<Rightarrow> 'a list \<times> 'a list" where
  "splice_parts start deleteCount its xs =
     (let len = length xs;
          actualStart = splice_start start len;
          actualDeleteCount = splice_count deleteCount len actualStart;
          removed = take actualDeleteCount (drop actualStart xs)
      in (removed, take actualStart xs @ its @ drop (actualStart + actualDeleteCount) xs))"

definition array_splice ::
  "addr \<Rightarrow> int \<Rightarrow> int \<Rightarrow> 'a list \<Rightarrow> ('a, 'f) signal_list \<Rightarrow> 'a list \<times> ('a, 'f) signal_list" where
  "array_splice a start deleteCount its s =
     (let (removed, content) = splice_parts start deleteCount its (arrays s a)
      in (removed, array_write a content s))"

text \<open>The callbacks of \<^verbatim>\<open>filter\<close>, \<^verbatim>\<open>findIndex\<close> and \<^verbatim>\<open>find\<close> receive the element and
  its index (and the array, which the caller below supplies). The loops run over the
  elements from index \<open>i\<close> on.\<close>

fun filter_from :: "nat \<Rightarrow> ('a \<Rightarrow> nat \<Rightarrow> bool) \<Rightarrow> 'a list \<Rightarrow> 'a list" where
  "filter_from i p [] = []"
| "filter_from i p (x # xs) =
     (if p x i then x # filter_from (Suc i) p xs else filter_from (Suc i) p xs)"

fun findIndex_from :: "nat \<Rightarrow> ('a \<Rightarrow> nat \<Rightarrow> bool) \<Rightarrow> 'a list \<Rightarrow> int" where
  "findIndex_from i p [] = - 1"
| "findIndex_from i p (x # xs) = (if p x i then int i else findIndex_from (Suc i) p xs)"

fun find_from :: "nat \<Rightarrow> ('a \<Rightarrow> nat \<Rightarrow> bool) \<Rightarrow> 'a list \<Rightarrow> 'a option" where
  "find_from i p [] = None"
| "find_from i p (x # xs) = (if p x i then Some x else find_from (Suc i) p xs)"

definition array_filter :: "('a \<Rightarrow> nat \<Rightarrow> 'a list \<Rightarrow> bool) \<Rightarrow> 'a list \<Rightarrow> 'a list" where
  "array_filter callback xs = filter_from 0 (\<lambda>item index. callback item index xs) xs"

definition array_findIndex :: "('a \<Rightarrow> nat \<Rightarrow> 'a list \<Rightarrow> bool) \<Rightarrow> 'a list \<Rightarrow> int" where
  "array_findIndex callback xs = findIndex_from 0 (\<lambda>item index. callback item index xs) xs"

definition array_find :: "('a \<Rightarrow> nat \<Rightarrow> 'a list \<Rightarrow> bool) \<Rightarrow> 'a list \<Rightarrow> 'a option" where
  "array_find callback xs = find_from 0 (\<lambda>item index. callback item index xs) xs"

definition array_includes :: "'a list \<Rightarrow> 'a \<Rightarrow> bool" where
  "array_includes xs x = (x \<in> set xs)"

text \<open>
  \<^verbatim>\<open>arr.sort(compareFn)\<close> sorts in place. The elements that are \<^verbatim>\<open>undefined\<close> go to
  the end and are not compared. On the others the language fixes the result when the
  comparator is a consistent ordering of them: the sort is stable, and
  \<open>compareFn a b \<le> 0\<close> keeps \<open>a\<close> before \<open>b\<close>; that result is the one stable insertion
  computes. When the comparator is not a consistent ordering of the elements the order
  is the engine's. A comparator is a consistent ordering of the elements \<open>xs\<close> when
  \<open>compareFn a b < 0\<close> exactly if \<open>compareFn b a > 0\<close>, and \<open>compareFn a b \<le> 0\<close> is
  transitive, for the elements of \<open>xs\<close>.
\<close>

definition consistent_on :: "'a list \<Rightarrow> ('a \<Rightarrow> 'a \<Rightarrow> int) \<Rightarrow> bool" where
  "consistent_on xs cmp =
     ((\<forall>a \<in> set xs. \<forall>b \<in> set xs. (cmp a b < 0) = (0 < cmp b a)) \<and>
      (\<forall>a \<in> set xs. \<forall>b \<in> set xs. \<forall>c \<in> set xs.
          cmp a b \<le> 0 \<longrightarrow> cmp b c \<le> 0 \<longrightarrow> cmp a c \<le> 0))"

fun sort_insert :: "('a \<Rightarrow> 'a \<Rightarrow> int) \<Rightarrow> 'a \<Rightarrow> 'a list \<Rightarrow> 'a list" where
  "sort_insert cmp x [] = [x]"
| "sort_insert cmp x (y # ys) =
     (if cmp x y \<le> 0 then x # y # ys else y # sort_insert cmp x ys)"

definition stable_sort :: "('a \<Rightarrow> 'a \<Rightarrow> int) \<Rightarrow> 'a list \<Rightarrow> 'a list" where
  "stable_sort cmp xs = foldr (sort_insert cmp) xs []"

definition js_sort :: "'a lang \<Rightarrow> ('a \<Rightarrow> 'a \<Rightarrow> int) \<Rightarrow> 'a list \<Rightarrow> 'a list" where
  "js_sort J cmp xs =
     (let defined = filter (\<lambda>x. \<not> isUndefined J x) xs;
          undefineds = filter (isUndefined J) xs
      in (if consistent_on defined cmp then stable_sort cmp defined
          else engineSort J cmp defined) @ undefineds)"

definition comparator :: "'a lang \<Rightarrow> ('a \<Rightarrow> 'a \<Rightarrow> int) option \<Rightarrow> 'a \<Rightarrow> 'a \<Rightarrow> int" where
  "comparator J compareFn = (case compareFn of None \<Rightarrow> defaultCompare J | Some c \<Rightarrow> c)"

definition array_sort ::
  "addr \<Rightarrow> 'a lang \<Rightarrow> ('a \<Rightarrow> 'a \<Rightarrow> int) \<Rightarrow> ('a, 'f) signal_list \<Rightarrow> ('a, 'f) signal_list" where
  "array_sort a J cmp s = array_write a (js_sort J cmp (arrays s a)) s"

subsection \<open>The class\<close>

text \<open>
  The constructor. Reference 0 is the caller's array \<^verbatim>\<open>initial\<close> (the default \<^verbatim>\<open>[]\<close>
  when none is given), reference 1 the array of the field initialiser
  \<^verbatim>\<open>_frozenValue = []\<close>, reference 2 the copy \<^verbatim>\<open>[...initial]\<close> that becomes \<^verbatim>\<open>data\<close>.
\<close>

definition signalList :: "'a list \<Rightarrow> ('a, 'f) signal_list" where
  "signalList initial =
     \<lparr>arrays = (\<lambda>_. [])(0 := initial, 1 := [], 2 := initial),
      fresh = 3, data = 2, watchers = [], frozen = False, frozenValue = 1, calls = []\<rparr>"

text \<open>\<^verbatim>\<open>notify\<close>: nothing while frozen, otherwise the watchers are called in the order
  of the set, until one throws. The first component of the result is the exception that
  leaves the method, \<open>None\<close> when it returns.\<close>

fun notify_loop ::
  "('f \<Rightarrow> 'e option) \<Rightarrow> 'f list \<Rightarrow> addr \<Rightarrow> addr \<Rightarrow> ('a, 'f) signal_list \<Rightarrow>
   'e option \<times> ('a, 'f) signal_list" where
  "notify_loop thr [] newVal oldVal s = (None, s)"
| "notify_loop thr (w # ws) newVal oldVal s =
     (let s1 = s\<lparr>calls := calls s @
                 [\<lparr>who = w, newRef = newVal, oldRef = oldVal,
                   newSeen = arrays s newVal, oldSeen = arrays s oldVal\<rparr>]\<rparr>
      in case thr w of
           Some e \<Rightarrow> (Some e, s1)
         | None \<Rightarrow> notify_loop thr ws newVal oldVal s1)"

definition notify ::
  "('f \<Rightarrow> 'e option) \<Rightarrow> addr \<Rightarrow> addr \<Rightarrow> ('a, 'f) signal_list \<Rightarrow>
   'e option \<times> ('a, 'f) signal_list" where
  "notify thr newVal oldVal s =
     (if frozen s then (None, s) else notify_loop thr (watchers s) newVal oldVal s)"

definition sl_pause :: "('a, 'f) signal_list \<Rightarrow> ('a, 'f) signal_list" where
  "sl_pause s =
     (let s1 = s\<lparr>frozen := True\<rparr>;
          (copy, s2) = array_spread (data s1) s1
      in s2\<lparr>frozenValue := copy\<rparr>)"

definition sl_begin ::
  "('f \<Rightarrow> 'e option) \<Rightarrow> ('a, 'f) signal_list \<Rightarrow> 'e option \<times> ('a, 'f) signal_list" where
  "sl_begin thr s =
     (let s1 = s\<lparr>frozen := False\<rparr>
      in notify thr (data s1) (frozenValue s1) s1)"

text \<open>The getter returns the reference of a new array.\<close>

definition sl_get_value :: "('a, 'f) signal_list \<Rightarrow> addr \<times> ('a, 'f) signal_list" where
  "sl_get_value s = array_spread (data s) s"

definition sl_set_value ::
  "('f \<Rightarrow> 'e option) \<Rightarrow> addr \<Rightarrow> ('a, 'f) signal_list \<Rightarrow> 'e option \<times> ('a, 'f) signal_list" where
  "sl_set_value thr newArray s =
     (let oldVal = data s;
          (copy, s1) = array_spread newArray s;
          s2 = s1\<lparr>data := copy\<rparr>
      in notify thr (data s2) oldVal s2)"

definition sl_listener :: "'f \<Rightarrow> ('a, 'f) signal_list \<Rightarrow> ('a, 'f) signal_list" where
  "sl_listener fn s = s\<lparr>watchers := set_add fn (watchers s)\<rparr>"

definition sl_stop :: "'f \<Rightarrow> ('a, 'f) signal_list \<Rightarrow> ('a, 'f) signal_list" where
  "sl_stop fn s = s\<lparr>watchers := set_delete fn (watchers s)\<rparr>"

text \<open>The mutators return \<open>Inr\<close> of their value, or \<open>Inl\<close> of the exception of a watcher
  that threw.\<close>

definition sl_push ::
  "('f \<Rightarrow> 'e option) \<Rightarrow> 'a list \<Rightarrow> ('a, 'f) signal_list \<Rightarrow>
   ('e + nat) \<times> ('a, 'f) signal_list" where
  "sl_push thr its s =
     (let (oldVal, s1) = array_slice (data s) s;
          (newLength, s2) = array_push (data s1) its s1;
          (ex, s3) = notify thr (data s2) oldVal s2
      in (completes ex newLength, s3))"

definition sl_pop ::
  "('f \<Rightarrow> 'e option) \<Rightarrow> ('a, 'f) signal_list \<Rightarrow> ('e + 'a option) \<times> ('a, 'f) signal_list" where
  "sl_pop thr s =
     (if length (arrays s (data s)) = 0 then (Inr None, s)
      else (let (oldVal, s1) = array_slice (data s) s;
                (popped, s2) = array_pop (data s1) s1;
                (ex, s3) = notify thr (data s2) oldVal s2
            in (completes ex popped, s3)))"

definition sl_unshift ::
  "('f \<Rightarrow> 'e option) \<Rightarrow> 'a list \<Rightarrow> ('a, 'f) signal_list \<Rightarrow>
   ('e + nat) \<times> ('a, 'f) signal_list" where
  "sl_unshift thr its s =
     (let (oldVal, s1) = array_slice (data s) s;
          (newLength, s2) = array_unshift (data s1) its s1;
          (ex, s3) = notify thr (data s2) oldVal s2
      in (completes ex newLength, s3))"

definition sl_shift ::
  "('f \<Rightarrow> 'e option) \<Rightarrow> ('a, 'f) signal_list \<Rightarrow> ('e + 'a option) \<times> ('a, 'f) signal_list" where
  "sl_shift thr s =
     (if length (arrays s (data s)) = 0 then (Inr None, s)
      else (let (oldVal, s1) = array_slice (data s) s;
                (shifted, s2) = array_shift (data s1) s1;
                (ex, s3) = notify thr (data s2) oldVal s2
            in (completes ex shifted, s3)))"

text \<open>\<^verbatim>\<open>deleteCount ?? 0\<close>: an absent count is 0.\<close>

definition sl_splice ::
  "('f \<Rightarrow> 'e option) \<Rightarrow> int \<Rightarrow> int option \<Rightarrow> 'a list \<Rightarrow> ('a, 'f) signal_list \<Rightarrow>
   ('e + 'a list) \<times> ('a, 'f) signal_list" where
  "sl_splice thr start deleteCount its s =
     (let (oldVal, s1) = array_slice (data s) s;
          (removed, s2) =
             array_splice (data s1) start (case deleteCount of None \<Rightarrow> 0 | Some d \<Rightarrow> d) its s1
      in if length removed > 0 \<or> length its > 0
         then (let (ex, s3) = notify thr (data s2) oldVal s2
               in (completes ex removed, s3))
         else (Inr removed, s2))"

definition sl_removeByIndex ::
  "('f \<Rightarrow> 'e option) \<Rightarrow> int \<Rightarrow> ('a, 'f) signal_list \<Rightarrow>
   ('e + 'a option) \<times> ('a, 'f) signal_list" where
  "sl_removeByIndex thr index s =
     (if index < 0 \<or> index \<ge> int (length (arrays s (data s))) then (Inr None, s)
      else (let (oldVal, s1) = array_slice (data s) s;
                (spliced, s2) = array_splice (data s1) index 1 [] s1;
                removed = (case spliced of [] \<Rightarrow> None | r # _ \<Rightarrow> Some r);
                (ex, s3) = notify thr (data s2) oldVal s2
            in (completes ex removed, s3)))"

definition sl_indexOf :: "('a \<Rightarrow> nat \<Rightarrow> 'a list \<Rightarrow> bool) \<Rightarrow> ('a, 'f) signal_list \<Rightarrow> int" where
  "sl_indexOf boolCallback s =
     array_findIndex (\<lambda>item idx arr. boolCallback item idx arr) (arrays s (data s))"

text \<open>\<^verbatim>\<open>filterBy\<close>: \<^verbatim>\<open>newArr\<close> is the new array that \<^verbatim>\<open>filter\<close> returns; \<^verbatim>\<open>removed\<close> is
  computed from \<^verbatim>\<open>oldVal\<close> by membership in \<^verbatim>\<open>newArr\<close>.\<close>

definition sl_filterBy ::
  "('f \<Rightarrow> 'e option) \<Rightarrow> ('a \<Rightarrow> nat \<Rightarrow> 'a list \<Rightarrow> bool) \<Rightarrow> ('a, 'f) signal_list \<Rightarrow>
   ('e + 'a list) \<times> ('a, 'f) signal_list" where
  "sl_filterBy thr callback s =
     (let (oldVal, s1) = array_slice (data s) s;
          (newArr, s2) = alloc (array_filter callback (arrays s1 (data s1))) s1;
          removed = array_filter (\<lambda>item _ _. \<not> array_includes (arrays s2 newArr) item)
                      (arrays s2 oldVal)
      in if length removed > 0 \<or> length (arrays s2 newArr) \<noteq> length (arrays s2 oldVal)
         then (let s3 = s2\<lparr>data := newArr\<rparr>;
                   (ex, s4) = notify thr (data s3) oldVal s3
               in (completes ex removed, s4))
         else (Inr removed, s2))"

text \<open>\<^verbatim>\<open>arraysShallowEqual\<close>, with its loop over the indices; the elements are compared
  with \<^verbatim>\<open>!==\<close>.\<close>

function arraysShallowEqual_from :: "'a lang \<Rightarrow> nat \<Rightarrow> 'a list \<Rightarrow> 'a list \<Rightarrow> bool" where
  "arraysShallowEqual_from J i arr1 arr2 =
     (if i < length arr1
      then (if \<not> strictEquals J (arr1 ! i) (arr2 ! i) then False
            else arraysShallowEqual_from J (Suc i) arr1 arr2)
      else True)"
  by pat_completeness auto
termination
  by (relation "measure (\<lambda>(J, i, arr1, arr2). length arr1 - i)") auto

declare arraysShallowEqual_from.simps [simp del]

definition arraysShallowEqual :: "'a lang \<Rightarrow> 'a list \<Rightarrow> 'a list \<Rightarrow> bool" where
  "arraysShallowEqual J arr1 arr2 =
     (if length arr1 \<noteq> length arr2 then False
      else arraysShallowEqual_from J 0 arr1 arr2)"

text \<open>\<^verbatim>\<open>orderBy\<close> returns \<^verbatim>\<open>this\<close>: the collection, in the state the call leaves it in
  (the first component is \<open>None\<close>), unless a watcher throws.\<close>

definition sl_orderBy ::
  "('f \<Rightarrow> 'e option) \<Rightarrow> 'a lang \<Rightarrow> ('a \<Rightarrow> 'a \<Rightarrow> int) option \<Rightarrow> ('a, 'f) signal_list \<Rightarrow>
   'e option \<times> ('a, 'f) signal_list" where
  "sl_orderBy thr J compareFn s =
     (let (oldVal, s1) = array_slice (data s) s;
          s2 = array_sort (data s1) J (comparator J compareFn) s1
      in if \<not> arraysShallowEqual J (arrays s2 (data s2)) (arrays s2 oldVal)
         then notify thr (data s2) oldVal s2
         else (None, s2))"

text \<open>\<^verbatim>\<open>remove\<close>: the callback of the \<^verbatim>\<open>filter\<close> records the removed elements as it
  goes; the pair is (kept, removedItems).\<close>

fun remove_from :: "nat \<Rightarrow> ('a \<Rightarrow> nat \<Rightarrow> bool) \<Rightarrow> 'a list \<Rightarrow> 'a list \<times> 'a list" where
  "remove_from i shouldRemove [] = ([], [])"
| "remove_from i shouldRemove (x # xs) =
     (let (kept, removedItems) = remove_from (Suc i) shouldRemove xs
      in if shouldRemove x i then (kept, x # removedItems) else (x # kept, removedItems))"

definition sl_remove ::
  "('f \<Rightarrow> 'e option) \<Rightarrow> ('a \<Rightarrow> nat \<Rightarrow> 'a list \<Rightarrow> bool) \<Rightarrow> ('a, 'f) signal_list \<Rightarrow>
   ('e + 'a list) \<times> ('a, 'f) signal_list" where
  "sl_remove thr callback s =
     (let (oldVal, s1) = array_slice (data s) s;
          (kept, removedItems) =
             remove_from 0 (\<lambda>item index. callback item index (arrays s1 oldVal))
               (arrays s1 (data s1));
          (newArr, s2) = alloc kept s1;
          s3 = s2\<lparr>data := newArr\<rparr>
      in if length removedItems > 0
         then (let (ex, s4) = notify thr (data s3) oldVal s3
               in (completes ex removedItems, s4))
         else (Inr removedItems, s3))"

definition sl_find ::
  "('a \<Rightarrow> nat \<Rightarrow> 'a list \<Rightarrow> bool) \<Rightarrow> ('a, 'f) signal_list \<Rightarrow> 'a option" where
  "sl_find callback s = array_find callback (arrays s (data s))"

subsection \<open>Vocabulary for the properties\<close>

text \<open>The state of the store that all operations keep: the two arrays of the object
  exist and are different arrays.\<close>

definition sl_inv :: "('a, 'f) signal_list \<Rightarrow> bool" where
  "sl_inv s = (data s < fresh s \<and> frozenValue s < fresh s \<and> data s \<noteq> frozenValue s)"

text \<open>One notification: the calls of one run of the loop of \<^verbatim>\<open>notify\<close> that reaches
  the watchers \<open>ws\<close>.\<close>

definition notification ::
  "'f list \<Rightarrow> addr \<Rightarrow> addr \<Rightarrow> 'a list \<Rightarrow> 'a list \<Rightarrow> ('a, 'f) list_call list" where
  "notification ws n old nseen oseen =
     map (\<lambda>w. \<lparr>who = w, newRef = n, oldRef = old, newSeen = nseen, oldSeen = oseen\<rparr>) ws"

text \<open>The calls made since the state \<open>s\<close>, in the state \<open>t\<close>.\<close>

definition calls_since ::
  "('a, 'f) signal_list \<Rightarrow> ('a, 'f) signal_list \<Rightarrow> ('a, 'f) list_call list" where
  "calls_since s t = drop (length (calls s)) (calls t)"

text \<open>What a read of \<^verbatim>\<open>.value\<close> gives: the content of the array the getter returns.\<close>

definition read_value :: "('a, 'f) signal_list \<Rightarrow> 'a list" where
  "read_value s = arrays (snd (sl_get_value s)) (fst (sl_get_value s))"

text \<open>The mutators, as values, so that a property can speak of every one of them and of
  sequences of them. \<open>mutate\<close> is the state one call leaves, whether it returns or
  throws; \<open>mutate_all\<close> is the state a caller leaves that makes the calls one after the
  other.\<close>

datatype 'a mutator =
    Push "'a list"
  | Pop
  | Unshift "'a list"
  | Shift
  | Splice int "int option" "'a list"
  | RemoveByIndex int
  | FilterBy "'a \<Rightarrow> nat \<Rightarrow> 'a list \<Rightarrow> bool"
  | Remove "'a \<Rightarrow> nat \<Rightarrow> 'a list \<Rightarrow> bool"
  | OrderBy "('a \<Rightarrow> 'a \<Rightarrow> int) option"
  | SetValue addr

fun mutate ::
  "('f \<Rightarrow> 'e option) \<Rightarrow> 'a lang \<Rightarrow> 'a mutator \<Rightarrow> ('a, 'f) signal_list \<Rightarrow>
   ('a, 'f) signal_list" where
  "mutate thr J (Push its) s = snd (sl_push thr its s)"
| "mutate thr J Pop s = snd (sl_pop thr s)"
| "mutate thr J (Unshift its) s = snd (sl_unshift thr its s)"
| "mutate thr J Shift s = snd (sl_shift thr s)"
| "mutate thr J (Splice start deleteCount its) s = snd (sl_splice thr start deleteCount its s)"
| "mutate thr J (RemoveByIndex index) s = snd (sl_removeByIndex thr index s)"
| "mutate thr J (FilterBy callback) s = snd (sl_filterBy thr callback s)"
| "mutate thr J (Remove callback) s = snd (sl_remove thr callback s)"
| "mutate thr J (OrderBy compareFn) s = snd (sl_orderBy thr J compareFn s)"
| "mutate thr J (SetValue newArray) s = snd (sl_set_value thr newArray s)"

definition mutate_all ::
  "('f \<Rightarrow> 'e option) \<Rightarrow> 'a lang \<Rightarrow> 'a mutator list \<Rightarrow> ('a, 'f) signal_list \<Rightarrow>
   ('a, 'f) signal_list" where
  "mutate_all thr J ms s = foldl (\<lambda>st m. mutate thr J m st) s ms"

text \<open>What a mutator has done when it comes to notify. \<open>in_place ys\<close>: the copy
  \<^verbatim>\<open>oldVal\<close> of the sequence sits at the fresh reference and the array of the collection
  now holds \<open>ys\<close>. \<open>replaced ys\<close>: after the copy \<^verbatim>\<open>oldVal\<close>, a second new array that
  holds \<open>ys\<close> has become the array of the collection.\<close>

definition in_place :: "'a list \<Rightarrow> ('a, 'f) signal_list \<Rightarrow> ('a, 'f) signal_list" where
  "in_place ys s =
     s\<lparr>fresh := Suc (fresh s), arrays := (arrays s)(fresh s := items s, data s := ys)\<rparr>"

definition replaced :: "'a list \<Rightarrow> ('a, 'f) signal_list \<Rightarrow> ('a, 'f) signal_list" where
  "replaced ys s =
     s\<lparr>arrays := (arrays s)(fresh s := items s, Suc (fresh s) := ys),
       fresh := Suc (Suc (fresh s)), data := Suc (fresh s)\<rparr>"

text \<open>Two states that differ at most in the flag \<open>frozen\<close> and in the trace.\<close>

definition same_store :: "('a, 'f) signal_list \<Rightarrow> ('a, 'f) signal_list \<Rightarrow> bool" where
  "same_store t u =
     (arrays t = arrays u \<and> fresh t = fresh u \<and> data t = data u \<and>
      frozenValue t = frozenValue u \<and> watchers t = watchers u)"



subsection \<open>An engine\<close>

text \<open>
  For a comparator that is not a consistent ordering the result of \<^verbatim>\<open>sort\<close> is the
  engine's. This is what V8 does on an array of fewer than 64 elements: it takes the
  longest run at the start that is ascending (each element compares \<open>\<ge> 0\<close> with the one
  before it) or strictly descending (each compares \<open>< 0\<close>), reverses a descending run,
  and inserts the remaining elements one by one at the place a binary search finds.
\<close>

fun run_ascending :: "('a \<Rightarrow> 'a \<Rightarrow> int) \<Rightarrow> 'a \<Rightarrow> 'a list \<Rightarrow> 'a list \<times> 'a list" where
  "run_ascending cmp previous [] = ([], [])"
| "run_ascending cmp previous (x # xs) =
     (if cmp x previous < 0 then ([], x # xs)
      else (let (run, rest) = run_ascending cmp x xs in (x # run, rest)))"

fun run_descending :: "('a \<Rightarrow> 'a \<Rightarrow> int) \<Rightarrow> 'a \<Rightarrow> 'a list \<Rightarrow> 'a list \<times> 'a list" where
  "run_descending cmp previous [] = ([], [])"
| "run_descending cmp previous (x # xs) =
     (if cmp x previous \<ge> 0 then ([], x # xs)
      else (let (run, rest) = run_descending cmp x xs in (x # run, rest)))"

fun count_and_make_run :: "('a \<Rightarrow> 'a \<Rightarrow> int) \<Rightarrow> 'a list \<Rightarrow> 'a list \<times> 'a list" where
  "count_and_make_run cmp [] = ([], [])"
| "count_and_make_run cmp [a] = ([a], [])"
| "count_and_make_run cmp (a # b # xs) =
     (if cmp b a < 0
      then (let (run, rest) = run_descending cmp b xs in (rev (a # b # run), rest))
      else (let (run, rest) = run_ascending cmp b xs in (a # b # run, rest)))"

function binary_position ::
  "('a \<Rightarrow> 'a \<Rightarrow> int) \<Rightarrow> 'a \<Rightarrow> 'a list \<Rightarrow> nat \<Rightarrow> nat \<Rightarrow> nat" where
  "binary_position cmp pivot work left right =
     (if left < right
      then (let mid = left + (right - left) div 2
            in if cmp pivot (work ! mid) < 0
               then binary_position cmp pivot work left mid
               else binary_position cmp pivot work (mid + 1) right)
      else left)"
  by pat_completeness auto
termination
  by (relation "measure (\<lambda>(cmp, pivot, work, left, right). right - left)") auto

declare binary_position.simps [simp del]

definition binary_insert :: "('a \<Rightarrow> 'a \<Rightarrow> int) \<Rightarrow> 'a list \<Rightarrow> 'a \<Rightarrow> 'a list" where
  "binary_insert cmp work pivot =
     (let left = binary_position cmp pivot work 0 (length work)
      in take left work @ pivot # drop left work)"

definition v8_sort :: "('a \<Rightarrow> 'a \<Rightarrow> int) \<Rightarrow> 'a list \<Rightarrow> 'a list" where
  "v8_sort cmp xs =
     (if length xs < 2 then xs
      else (let (run, rest) = count_and_make_run cmp xs
            in foldl (binary_insert cmp) run rest))"

subsection \<open>Concrete values and collections\<close>

text \<open>
  Integers: strict equality is equality, none is \<^verbatim>\<open>undefined\<close>, and the default order
  of \<^verbatim>\<open>sort\<close> compares the code units of the decimal strings (so 10 comes before 9).
  Values that are a number, \<^verbatim>\<open>NaN\<close> or \<^verbatim>\<open>undefined\<close>: \<^verbatim>\<open>NaN\<close> is not strictly equal to
  itself, and a difference with \<^verbatim>\<open>NaN\<close> is \<^verbatim>\<open>NaN\<close>, which \<^verbatim>\<open>sort\<close> reads as 0.
\<close>

function digits :: "nat \<Rightarrow> nat list" where
  "digits n = (if n < 10 then [48 + n] else digits (n div 10) @ [48 + n mod 10])"
  by pat_completeness auto
termination
  by (relation "measure (\<lambda>n. n)") auto

declare digits.simps [simp del]

definition code_units :: "int \<Rightarrow> nat list" where
  "code_units n = (if n < 0 then 45 # digits (nat (- n)) else digits (nat n))"

fun compare_units :: "nat list \<Rightarrow> nat list \<Rightarrow> int" where
  "compare_units [] [] = 0"
| "compare_units [] (y # ys) = - 1"
| "compare_units (x # xs) [] = 1"
| "compare_units (x # xs) (y # ys) =
     (if x < y then - 1 else if y < x then 1 else compare_units xs ys)"

definition int_lang :: "int lang" where
  "int_lang =
     \<lparr>strictEquals = (\<lambda>a b. a = b), isUndefined = (\<lambda>a. False),
      defaultCompare = (\<lambda>a b. compare_units (code_units a) (code_units b)),
      engineSort = v8_sort\<rparr>"








definition first_only :: "int \<Rightarrow> nat \<Rightarrow> int list \<Rightarrow> bool" where
  "first_only item index arr = (index = 0)"

text \<open>A list of integers with one watcher \<open>w\<close>; a paused list next to an array
  \<^verbatim>\<open>[9, 9]\<close> of the client (reference 4); a list with the two watchers \<open>a\<close> and \<open>b\<close>; the
  list after \<^verbatim>\<open>push(4)\<close>; a list that was paused and resumed; a list of values with
  one watcher.\<close>

definition watched :: "int list \<Rightarrow> (int, string) signal_list" where
  "watched xs = sl_listener ''w'' (signalList xs)"



definition after_push :: "(int, string) signal_list" where
  "after_push = snd (sl_push no_throw [4] (watched [1, 2, 3]))"

definition resumed :: "(int, string) signal_list" where
  "resumed = snd (sl_begin no_throw (sl_pause (watched [1, 2, 3])))"


section \<open>JinjxScope\<close>

text \<open>
  The scope keeps its cleanup actions in the array \<^verbatim>\<open>_effectStore\<close>. An action is a
  reference \<open>'f\<close>; what calling it does is given by \<open>thr\<close>: \<open>thr f = None\<close> when the call
  returns, \<open>thr f = Some e\<close> when it throws \<open>e\<close> (an action does the same at each call).
  \<open>invoked\<close> is the trace of the calls made so far, in the order in which they were made.
\<close>

record ('h, 'f) scope =
  host :: 'h
  effectStore :: "'f list"
  invoked :: "'f list"

definition scope :: "'h \<Rightarrow> ('h, 'f) scope" where
  "scope el = \<lparr>host = el, effectStore = [], invoked = []\<rparr>"

text \<open>\<^verbatim>\<open>delegate\<close> stores the teardown function that \<^verbatim>\<open>host.event\<close> returns; the host
  is outside the core, so its \<^verbatim>\<open>event\<close> method is the parameter \<open>event\<close>, applied to the
  event name and to the computed handler (the selector with the handler it guards).\<close>

definition scope_delegate ::
  "('h \<Rightarrow> string \<Rightarrow> string \<times> 'k \<Rightarrow> 'f) \<Rightarrow> string \<Rightarrow> string \<Rightarrow> 'k \<Rightarrow>
   ('h, 'f) scope \<Rightarrow> ('h, 'f) scope" where
  "scope_delegate event eventName selector eventHandler s =
     (let computedHandler = (selector, eventHandler);
          disposeFn = event (host s) eventName computedHandler
      in s\<lparr>effectStore := effectStore s @ [disposeFn]\<rparr>)"

definition scope_effect :: "'f \<Rightarrow> ('h, 'f) scope \<Rightarrow> ('h, 'f) scope" where
  "scope_effect effectFn s = s\<lparr>effectStore := effectStore s @ [effectFn]\<rparr>"

text \<open>The loop \<^verbatim>\<open>for (const effect of this._effectStore) effect()\<close>: a call that throws
  ends the loop, and the exception leaves \<^verbatim>\<open>dispose\<close> before the store is reset.\<close>

fun dispose_loop ::
  "('f \<Rightarrow> 'e option) \<Rightarrow> 'f list \<Rightarrow> ('h, 'f) scope \<Rightarrow> 'e option \<times> ('h, 'f) scope" where
  "dispose_loop thr [] s = (None, s)"
| "dispose_loop thr (effect # rest) s =
     (let s1 = s\<lparr>invoked := invoked s @ [effect]\<rparr>
      in case thr effect of
           Some e \<Rightarrow> (Some e, s1)
         | None \<Rightarrow> dispose_loop thr rest s1)"

text \<open>The first component is \<open>None\<close> when \<^verbatim>\<open>dispose\<close> returns and \<open>Some e\<close> when it
  throws \<open>e\<close>.\<close>

definition scope_dispose ::
  "('f \<Rightarrow> 'e option) \<Rightarrow> ('h, 'f) scope \<Rightarrow> 'e option \<times> ('h, 'f) scope" where
  "scope_dispose thr s =
     (case dispose_loop thr (effectStore s) s of
        (Some e, s1) \<Rightarrow> (Some e, s1)
      | (None, s1) \<Rightarrow> (None, s1\<lparr>effectStore := []\<rparr>))"

definition scope_enter :: "('h \<Rightarrow> 'r) \<Rightarrow> ('h, 'f) scope \<Rightarrow> 'r" where
  "scope_enter callback s = callback (host s)"

text \<open>Registering the actions \<open>fs\<close> one after the other with \<^verbatim>\<open>effect\<close>.\<close>

definition register_all :: "'f list \<Rightarrow> ('h, 'f) scope \<Rightarrow> ('h, 'f) scope" where
  "register_all fs s = foldl (\<lambda>st f. scope_effect f st) s fs"

text \<open>Two actions, the first of which throws.\<close>

definition failing_first :: "string \<Rightarrow> string option" where
  "failing_first f = (if f = ''a'' then Some ''boom'' else None)"

definition two_actions :: "(unit, string) scope" where
  "two_actions = scope_effect ''b'' (scope_effect ''a'' (scope ()))"

section \<open>Properties of JinjxSignal\<close>

subsection \<open>Callbacks that throw\<close>

lemma reached_all: "\<forall>w \<in> set ws. thr w = None \<Longrightarrow> reached thr ws = ws"
  by (induction ws) simp_all

lemma raised_none: "\<forall>w \<in> set ws. thr w = None \<Longrightarrow> raised thr ws = None"
  by (induction ws) simp_all

lemma reached_no_throw: "reached no_throw ws = ws"
  by (induction ws) (simp_all add: no_throw_def)

lemma raised_no_throw: "raised no_throw ws = None"
  by (induction ws) (simp_all add: no_throw_def)

subsection \<open>The set of listeners\<close>

lemma distinct_set_add: "distinct fs \<Longrightarrow> distinct (set_add f fs)"
  by (simp add: set_add_def)

lemma distinct_set_delete: "distinct fs \<Longrightarrow> distinct (set_delete f fs)"
  by (simp add: set_delete_def distinct_removeAll)

lemma listeners_distinct_signal: "distinct (listeners (signal v))"
  by (simp add: signal_def)

lemma listeners_distinct_listens: "distinct (listeners s) \<Longrightarrow> distinct (listeners (listens w s))"
  by (simp add: listens_def distinct_set_add)

lemma listeners_distinct_off: "distinct (listeners s) \<Longrightarrow> distinct (listeners (off w s))"
  by (simp add: off_def distinct_set_delete)

subsection \<open>Writes\<close>



lemma calls_to_count: "calls_to w (write_calls ws v old) = count_list ws w"
  by (induction ws) (simp_all add: calls_to_def write_calls_def)



lemma calls_to_not_reached: "w \<notin> set ws \<Longrightarrow> calls_to w (write_calls ws v old) = 0"
  by (simp add: calls_to_count)




section \<open>Properties of JinjxScope\<close>

lemma effectStore_register_all:
  "effectStore (register_all fs s) = effectStore s @ fs"
  unfolding register_all_def
  by (induction fs arbitrary: s) (simp_all add: scope_effect_def)

lemma dispose_loop_all_return:
  "\<forall>f \<in> set fs. thr f = None \<Longrightarrow>
   dispose_loop thr fs s = (None, s\<lparr>invoked := invoked s @ fs\<rparr>)"
  by (induction fs arbitrary: s) simp_all

lemma dispose_loop_throws:
  "\<forall>g \<in> set pre. thr g = None \<Longrightarrow> thr f = Some e \<Longrightarrow>
   dispose_loop thr (pre @ f # post) s = (Some e, s\<lparr>invoked := invoked s @ pre @ [f]\<rparr>)"
  by (induction pre arbitrary: s) simp_all

text \<open>
  C5, as stated, at a scope whose first action throws: \<^verbatim>\<open>dispose\<close> calls \<open>a\<close> only, the
  action \<open>b\<close> is never called, the store still holds both actions, and a second
  \<^verbatim>\<open>dispose\<close> calls \<open>a\<close> again.
\<close>

theorem dispose_every_action_once_counterexample:
  "effectStore two_actions = [''a'', ''b''] \<and>
   invoked (snd (scope_dispose failing_first two_actions)) = [''a''] \<and>
   effectStore (snd (scope_dispose failing_first two_actions)) \<noteq> [] \<and>
   invoked (snd (scope_dispose failing_first (snd (scope_dispose failing_first two_actions))))
     = [''a'', ''a'']"
  by (simp add: two_actions_def failing_first_def scope_dispose_def scope_effect_def scope_def)

text \<open>
  C5, amended. When every registered cleanup action returns normally, \<^verbatim>\<open>dispose\<close>
  returns, the calls it makes are the registered actions, each once and in registration
  order, the store is empty afterwards, and a second \<^verbatim>\<open>dispose\<close> makes no call and
  leaves the scope as it is. The store is the list of the actions in the order in which
  \<^verbatim>\<open>effect\<close> registered them: registering them again on a new scope gives the same store.
\<close>

theorem dispose_every_action_once:
  assumes "\<forall>f \<in> set (effectStore s). thr f = None"
  shows "scope_dispose thr s =
           (None, s\<lparr>effectStore := [], invoked := invoked s @ effectStore s\<rparr>) \<and>
         scope_dispose thr (snd (scope_dispose thr s)) = (None, snd (scope_dispose thr s)) \<and>
         effectStore (register_all (effectStore s) (scope (host s))) = effectStore s"
proof -
  let ?t = "s\<lparr>effectStore := [], invoked := invoked s @ effectStore s\<rparr>"
  have first: "scope_dispose thr s = (None, ?t)"
    using assms by (simp add: scope_dispose_def dispose_loop_all_return)
  have second: "scope_dispose thr ?t = (None, ?t)"
    by (simp add: scope_dispose_def)
  have third: "effectStore (register_all (effectStore s) (scope (host s))) = effectStore s"
    by (simp add: effectStore_register_all scope_def)
  from first second third show ?thesis
    by simp
qed

theorem dispose_every_action_once_witness:
  "scope_dispose (\<lambda>f. None :: string option)
     (register_all [''a'', ''b'', ''c''] (scope () :: (unit, string) scope)) =
     (None, \<lparr>host = (), effectStore = [], invoked = [''a'', ''b'', ''c'']\<rparr>) \<and>
   scope_dispose (\<lambda>f. None :: string option)
     \<lparr>host = (), effectStore = [], invoked = [''a'', ''b'', ''c'']\<rparr> =
     (None, \<lparr>host = (), effectStore = [], invoked = [''a'', ''b'', ''c'']\<rparr>)"
proof -
  let ?thr = "\<lambda>f::string. None :: string option"
  let ?s = "register_all [''a'', ''b'', ''c''] (scope ()) :: (unit, string) scope"
  have s: "?s = \<lparr>host = (), effectStore = [''a'', ''b'', ''c''], invoked = []\<rparr>"
    by (simp add: register_all_def scope_effect_def scope_def)
  have hyp: "\<forall>f \<in> set (effectStore ?s). ?thr f = None" by simp
  note t = dispose_every_action_once [where s = ?s and thr = ?thr, OF hyp]
  from t [THEN conjunct1]
  have one: "scope_dispose ?thr ?s =
      (None, \<lparr>host = (), effectStore = [], invoked = [''a'', ''b'', ''c'']\<rparr>)"
    by (simp add: s)
  from t [THEN conjunct2, THEN conjunct1]
  have two: "scope_dispose ?thr (snd (scope_dispose ?thr ?s)) =
      (None, snd (scope_dispose ?thr ?s))" .
  from two have "scope_dispose ?thr
      \<lparr>host = (), effectStore = [], invoked = [''a'', ''b'', ''c'']\<rparr> =
      (None, \<lparr>host = (), effectStore = [], invoked = [''a'', ''b'', ''c'']\<rparr>)"
    unfolding one by simp
  with one show ?thesis
    by simp
qed

text \<open>
  C10. When the \<open>k\<close>-th registered action is the first to throw (the actions \<open>pre\<close>
  before it return, it throws \<open>e\<close>, the actions \<open>post\<close> follow it), \<^verbatim>\<open>dispose\<close> throws
  \<open>e\<close>, has called the first \<open>k\<close> actions and none of those after, and leaves the store
  as it was. A second \<^verbatim>\<open>dispose\<close> therefore calls the first \<open>k - 1\<close> actions and the
  throwing one again, and throws again.
\<close>

theorem dispose_not_atomic:
  assumes "effectStore s = pre @ f # post"
    and "\<forall>g \<in> set pre. thr g = None"
    and "thr f = Some e"
  shows "scope_dispose thr s = (Some e, s\<lparr>invoked := invoked s @ pre @ [f]\<rparr>) \<and>
         effectStore (snd (scope_dispose thr s)) = effectStore s \<and>
         scope_dispose thr (snd (scope_dispose thr s)) =
           (Some e, s\<lparr>invoked := invoked s @ pre @ [f] @ pre @ [f]\<rparr>)"
proof -
  let ?t = "s\<lparr>invoked := invoked s @ pre @ [f]\<rparr>"
  have loop: "\<And>u. dispose_loop thr (pre @ f # post) u =
                (Some e, u\<lparr>invoked := invoked u @ pre @ [f]\<rparr>)"
    using assms(2,3) by (rule dispose_loop_throws)
  have first: "scope_dispose thr s = (Some e, ?t)"
    by (simp add: scope_dispose_def assms(1) loop)
  have store: "effectStore ?t = pre @ f # post"
    by (simp add: assms(1))
  have second: "scope_dispose thr ?t =
                  (Some e, s\<lparr>invoked := invoked s @ pre @ [f] @ pre @ [f]\<rparr>)"
    by (simp add: scope_dispose_def store loop)
  from first second show ?thesis
    by simp
qed

theorem dispose_not_atomic_witness:
  "scope_dispose (\<lambda>f. if f = ''b'' then Some ''boom'' else None)
     (register_all [''a'', ''b'', ''c''] (scope () :: (unit, string) scope)) =
     (Some ''boom'', \<lparr>host = (), effectStore = [''a'', ''b'', ''c''], invoked = [''a'', ''b'']\<rparr>) \<and>
   scope_dispose (\<lambda>f. if f = ''b'' then Some ''boom'' else None)
     \<lparr>host = (), effectStore = [''a'', ''b'', ''c''], invoked = [''a'', ''b'']\<rparr> =
     (Some ''boom'',
      \<lparr>host = (), effectStore = [''a'', ''b'', ''c''], invoked = [''a'', ''b'', ''a'', ''b'']\<rparr>)"
proof -
  let ?thr = "\<lambda>f::string. if f = ''b'' then Some ''boom'' else None"
  let ?s = "register_all [''a'', ''b'', ''c''] (scope ()) :: (unit, string) scope"
  have s: "?s = \<lparr>host = (), effectStore = [''a'', ''b'', ''c''], invoked = []\<rparr>"
    by (simp add: register_all_def scope_effect_def scope_def)
  have h1: "effectStore ?s = [''a''] @ ''b'' # [''c'']" by (simp add: s)
  have h2: "\<forall>g \<in> set [''a'']. ?thr g = None" by simp
  have h3: "?thr ''b'' = Some ''boom''" by simp
  note t = dispose_not_atomic [where s = ?s and pre = "[''a'']" and f = "''b''"
      and post = "[''c'']" and thr = ?thr and e = "''boom''", OF h1 h2 h3]
  from t [THEN conjunct1]
  have one: "scope_dispose ?thr ?s =
      (Some ''boom'', \<lparr>host = (), effectStore = [''a'', ''b'', ''c''], invoked = [''a'', ''b'']\<rparr>)"
    by (simp add: s)
  from t [THEN conjunct2, THEN conjunct2]
  have "scope_dispose ?thr (snd (scope_dispose ?thr ?s)) =
      (Some ''boom'', ?s\<lparr>invoked := invoked ?s @ [''a''] @ [''b''] @ [''a''] @ [''b'']\<rparr>)" .
  then have "scope_dispose ?thr
      \<lparr>host = (), effectStore = [''a'', ''b'', ''c''], invoked = [''a'', ''b'']\<rparr> =
      (Some ''boom'',
       \<lparr>host = (), effectStore = [''a'', ''b'', ''c''], invoked = [''a'', ''b'', ''a'', ''b'']\<rparr>)"
    unfolding one by (simp add: s)
  with one show ?thesis
    by simp
qed

section \<open>Properties of JinjxSignalList\<close>

subsection \<open>The state after each operation\<close>

lemma notify_loop_result:
  "notify_loop thr ws n old s =
     (raised thr ws,
      s\<lparr>calls := calls s @ notification (reached thr ws) n old (arrays s n) (arrays s old)\<rparr>)"
proof (induction ws arbitrary: s)
  case Nil
  show ?case by (simp add: notification_def)
next
  case (Cons w ws)
  show ?case
    by (cases "thr w") (simp_all add: Cons.IH notification_def)
qed

lemma notify_fields:
  "arrays (snd (notify thr n old s)) = arrays s"
  "fresh (snd (notify thr n old s)) = fresh s"
  "data (snd (notify thr n old s)) = data s"
  "watchers (snd (notify thr n old s)) = watchers s"
  "frozen (snd (notify thr n old s)) = frozen s"
  "frozenValue (snd (notify thr n old s)) = frozenValue s"
  "calls (snd (notify thr n old s)) =
     calls s @ (if frozen s then []
                else notification (reached thr (watchers s)) n old (arrays s n) (arrays s old))"
  "fst (notify thr n old s) = (if frozen s then None else raised thr (watchers s))"
  by (simp_all add: notify_def notify_loop_result)

lemmas array_ops = alloc_def array_write_def array_spread_def array_slice_def array_push_def
  array_unshift_def array_pop_def array_shift_def array_splice_def array_sort_def

lemma push_state:
  "sl_inv s \<Longrightarrow> sl_push thr its s =
     (completes (fst (notify thr (data s) (fresh s) (in_place (items s @ its) s)))
        (length (items s) + length its),
      snd (notify thr (data s) (fresh s) (in_place (items s @ its) s)))"
  by (simp add: sl_push_def array_ops items_def sl_inv_def in_place_def case_prod_beta)

lemma unshift_state:
  "sl_inv s \<Longrightarrow> sl_unshift thr its s =
     (completes (fst (notify thr (data s) (fresh s) (in_place (its @ items s) s)))
        (length its + length (items s)),
      snd (notify thr (data s) (fresh s) (in_place (its @ items s) s)))"
  by (simp add: sl_unshift_def array_ops items_def sl_inv_def in_place_def case_prod_beta)

lemma pop_state:
  "sl_inv s \<Longrightarrow> sl_pop thr s =
     (if items s = [] then (Inr None, s)
      else (completes (fst (notify thr (data s) (fresh s) (in_place (butlast (items s)) s)))
              (Some (last (items s))),
            snd (notify thr (data s) (fresh s) (in_place (butlast (items s)) s))))"
  by (simp add: sl_pop_def array_ops items_def sl_inv_def in_place_def case_prod_beta)

lemma shift_state:
  "sl_inv s \<Longrightarrow> sl_shift thr s =
     (if items s = [] then (Inr None, s)
      else (completes (fst (notify thr (data s) (fresh s) (in_place (tl (items s)) s)))
              (Some (hd (items s))),
            snd (notify thr (data s) (fresh s) (in_place (tl (items s)) s))))"
  by (cases "items s")
     (simp_all add: sl_shift_def array_ops items_def sl_inv_def in_place_def case_prod_beta)

lemma splice_state:
  "sl_inv s \<Longrightarrow> sl_splice thr start deleteCount its s =
     (let d = (case deleteCount of None \<Rightarrow> 0 | Some d \<Rightarrow> d);
          removed = fst (splice_parts start d its (items s));
          t = in_place (snd (splice_parts start d its (items s))) s
      in if length removed > 0 \<or> length its > 0
         then (completes (fst (notify thr (data s) (fresh s) t)) removed,
               snd (notify thr (data s) (fresh s) t))
         else (Inr removed, t))"
  by (auto simp add: sl_splice_def array_ops items_def sl_inv_def in_place_def Let_def
      case_prod_beta)

lemma removeByIndex_state:
  "sl_inv s \<Longrightarrow> sl_removeByIndex thr index s =
     (if index < 0 \<or> index \<ge> int (length (items s)) then (Inr None, s)
      else (completes
              (fst (notify thr (data s) (fresh s)
                      (in_place (snd (splice_parts index 1 [] (items s))) s)))
              (case fst (splice_parts index 1 [] (items s)) of [] \<Rightarrow> None | r # _ \<Rightarrow> Some r),
            snd (notify thr (data s) (fresh s)
                   (in_place (snd (splice_parts index 1 [] (items s))) s))))"
  by (simp add: sl_removeByIndex_def array_ops items_def sl_inv_def in_place_def Let_def
      case_prod_beta)

lemma filterBy_state:
  "sl_inv s \<Longrightarrow> sl_filterBy thr callback s =
     (let kept = array_filter callback (items s);
          removed = array_filter (\<lambda>item _ _. item \<notin> set kept) (items s)
      in if removed \<noteq> [] \<or> length kept \<noteq> length (items s)
         then (completes (fst (notify thr (Suc (fresh s)) (fresh s) (replaced kept s))) removed,
               snd (notify thr (Suc (fresh s)) (fresh s) (replaced kept s)))
         else (Inr removed, (replaced kept s)\<lparr>data := data s\<rparr>))"
  by (simp add: sl_filterBy_def array_ops items_def sl_inv_def replaced_def Let_def
      array_includes_def case_prod_beta)

lemma remove_state:
  "sl_inv s \<Longrightarrow> sl_remove thr callback s =
     (let r = remove_from 0 (\<lambda>item index. callback item index (items s)) (items s)
      in if snd r \<noteq> []
         then (completes (fst (notify thr (Suc (fresh s)) (fresh s) (replaced (fst r) s))) (snd r),
               snd (notify thr (Suc (fresh s)) (fresh s) (replaced (fst r) s)))
         else (Inr (snd r), replaced (fst r) s))"
  by (simp add: sl_remove_def array_ops items_def sl_inv_def replaced_def Let_def
      case_prod_beta)

lemma orderBy_state:
  "sl_inv s \<Longrightarrow> sl_orderBy thr J compareFn s =
     (let t = in_place (js_sort J (comparator J compareFn) (items s)) s
      in if \<not> arraysShallowEqual J (js_sort J (comparator J compareFn) (items s)) (items s)
         then notify thr (data s) (fresh s) t else (None, t))"
  by (simp add: sl_orderBy_def array_ops items_def sl_inv_def in_place_def Let_def)

lemma set_value_state:
  "sl_inv s \<Longrightarrow> sl_set_value thr a s =
     notify thr (fresh s) (data s)
       (s\<lparr>arrays := (arrays s)(fresh s := arrays s a), fresh := Suc (fresh s),
          data := fresh s\<rparr>)"
  by (simp add: sl_set_value_def array_ops Let_def)

lemmas mutator_states = push_state pop_state unshift_state shift_state splice_state
  removeByIndex_state filterBy_state remove_state orderBy_state set_value_state

subsection \<open>The store invariant\<close>

lemma inv_signalList: "sl_inv (signalList initial)"
  by (simp add: sl_inv_def signalList_def)

lemma inv_frozen_flag: "sl_inv (s\<lparr>frozen := b\<rparr>) = sl_inv s"
  by (simp add: sl_inv_def)

lemma inv_listener: "sl_inv (sl_listener fn s) = sl_inv s"
  by (simp add: sl_inv_def sl_listener_def)

lemma inv_stop: "sl_inv (sl_stop fn s) = sl_inv s"
  by (simp add: sl_inv_def sl_stop_def)

lemma inv_pause: "sl_inv s \<Longrightarrow> sl_inv (sl_pause s)"
  by (simp add: sl_inv_def sl_pause_def array_ops Let_def)

lemma inv_begin: "sl_inv s \<Longrightarrow> sl_inv (snd (sl_begin thr s))"
  by (simp add: sl_inv_def sl_begin_def notify_fields Let_def)

lemma inv_get_value: "sl_inv s \<Longrightarrow> sl_inv (snd (sl_get_value s))"
  by (simp add: sl_inv_def sl_get_value_def array_ops)

lemma inv_array_write: "sl_inv (array_write a xs s) = sl_inv s"
  by (simp add: sl_inv_def array_write_def)

lemma inv_mutate: "sl_inv t \<Longrightarrow> sl_inv (mutate thr J m t)"
  by (cases m)
     (simp_all add: mutator_states notify_fields in_place_def replaced_def Let_def sl_inv_def)

lemma watchers_distinct_listener: "distinct (watchers s) \<Longrightarrow> distinct (watchers (sl_listener fn s))"
  by (simp add: sl_listener_def distinct_set_add)

subsection \<open>Every mutator\<close>

lemma mutate_frozen_silent:
  "sl_inv t \<Longrightarrow> frozen t \<Longrightarrow> calls (mutate thr J m t) = calls t"
  by (cases m)
     (simp_all add: mutator_states notify_fields in_place_def replaced_def Let_def)

lemma mutate_keeps:
  "sl_inv t \<Longrightarrow>
     watchers (mutate thr J m t) = watchers t \<and> frozen (mutate thr J m t) = frozen t \<and>
     frozenValue (mutate thr J m t) = frozenValue t \<and>
     arrays (mutate thr J m t) (frozenValue t) = arrays t (frozenValue t)"
  by (cases m)
     (auto simp add: mutator_states notify_fields in_place_def replaced_def Let_def sl_inv_def)

lemma mutate_new_calls:
  "sl_inv t \<Longrightarrow>
     \<exists>n. calls (mutate thr J m t) = calls t @ n \<and>
         (\<forall>c \<in> set n. newRef c = data (mutate thr J m t) \<and>
                        oldRef c \<noteq> data (mutate thr J m t) \<and>
                        oldRef c \<noteq> frozenValue (mutate thr J m t))"
  by (cases m)
     (auto simp add: mutator_states notify_fields in_place_def replaced_def Let_def sl_inv_def
        notification_def)

lemma mutate_all_paused:
  "sl_inv t \<Longrightarrow> frozen t \<Longrightarrow>
     sl_inv (mutate_all thr J ms t) \<and> frozen (mutate_all thr J ms t) \<and>
     calls (mutate_all thr J ms t) = calls t \<and>
     watchers (mutate_all thr J ms t) = watchers t \<and>
     frozenValue (mutate_all thr J ms t) = frozenValue t \<and>
     arrays (mutate_all thr J ms t) (frozenValue t) = arrays t (frozenValue t)"
proof (induction ms arbitrary: t)
  case Nil
  then show ?case by (simp add: mutate_all_def)
next
  case (Cons m ms)
  let ?u = "mutate thr J m t"
  from Cons.prems have inv: "sl_inv ?u" by (simp add: inv_mutate)
  from Cons.prems have keeps:
    "watchers ?u = watchers t" "frozen ?u" "frozenValue ?u = frozenValue t"
    "arrays ?u (frozenValue t) = arrays t (frozenValue t)"
    using mutate_keeps [of t thr J m] by simp_all
  from Cons.prems have silent: "calls ?u = calls t" by (simp add: mutate_frozen_silent)
  have step: "mutate_all thr J (m # ms) t = mutate_all thr J ms ?u"
    by (simp add: mutate_all_def)
  from Cons.IH [OF inv keeps(2)] show ?case
    by (simp add: step keeps silent)
qed

subsection \<open>The concrete collections\<close>

lemma watched_fields:
  "arrays (watched xs) = (\<lambda>_. [])(0 := xs, 1 := [], 2 := xs)"
  "fresh (watched xs) = 3" "data (watched xs) = 2" "watchers (watched xs) = [''w'']"
  "frozen (watched xs) = False" "frozenValue (watched xs) = 1" "calls (watched xs) = []"
  "items (watched xs) = xs" "sl_inv (watched xs)"
  by (simp_all add: watched_def sl_listener_def signalList_def set_add_def items_def sl_inv_def)




subsection \<open>Removing where there is nothing to remove\<close>

text \<open>
  C9. On an empty list \<^verbatim>\<open>pop()\<close> and \<^verbatim>\<open>shift()\<close> return \<^verbatim>\<open>undefined\<close> and leave the
  whole state as it is: the sequence is unchanged and no watcher is called. So does
  \<^verbatim>\<open>removeByIndex(index)\<close> for \<open>index < 0\<close> and for \<open>index \<ge> length\<close>.
\<close>

theorem absent_when_nothing_to_remove:
  "(items s = [] \<longrightarrow> sl_pop thr s = (Inr None, s) \<and> sl_shift thr s = (Inr None, s)) \<and>
   (index < 0 \<or> int (length (items s)) \<le> index \<longrightarrow>
      sl_removeByIndex thr index s = (Inr None, s))"
  by (auto simp add: sl_pop_def sl_shift_def sl_removeByIndex_def items_def)

theorem absent_when_nothing_to_remove_witness:
  "sl_pop failing_first (watched []) = (Inr None, watched []) \<and>
   sl_shift failing_first (watched []) = (Inr None, watched []) \<and>
   sl_removeByIndex failing_first 3 (watched [1, 2, 3]) = (Inr None, watched [1, 2, 3]) \<and>
   sl_removeByIndex failing_first (- 1) (watched [1, 2, 3]) = (Inr None, watched [1, 2, 3])"
proof -
  have e: "items (watched []) = []" by (simp add: watched_fields)
  have r1: "(3::int) < 0 \<or> int (length (items (watched [1, 2, 3]))) \<le> 3"
    by (simp add: watched_fields)
  have r2: "(- 1::int) < 0 \<or> int (length (items (watched [1, 2, 3]))) \<le> - 1"
    by (simp add: watched_fields)
  from absent_when_nothing_to_remove
    [where s = "watched []" and index = 0 and thr = failing_first] e
  have a: "sl_pop failing_first (watched []) = (Inr None, watched []) \<and>
           sl_shift failing_first (watched []) = (Inr None, watched [])"
    by blast
  from absent_when_nothing_to_remove
    [where s = "watched [1, 2, 3]" and index = 3 and thr = failing_first] r1
  have b: "sl_removeByIndex failing_first 3 (watched [1, 2, 3]) = (Inr None, watched [1, 2, 3])"
    by blast
  from absent_when_nothing_to_remove
    [where s = "watched [1, 2, 3]" and index = "- 1" and thr = failing_first] r2
  have c: "sl_removeByIndex failing_first (- 1) (watched [1, 2, 3]) =
             (Inr None, watched [1, 2, 3])"
    by blast
  from a b c show ?thesis by simp
qed

subsection \<open>push and unshift\<close>

text \<open>What both do on every call: the items are appended (prepended), the new length
  is returned unless a watcher throws, and unless the list is paused the watchers are
  called.\<close>

lemma push_fields:
  assumes "sl_inv s"
  shows "fst (sl_push thr its s) =
           completes (if frozen s then None else raised thr (watchers s))
             (length (items s) + length its)"
    and "items (snd (sl_push thr its s)) = items s @ its"
    and "calls (snd (sl_push thr its s)) =
           calls s @ (if frozen s then []
                      else notification (reached thr (watchers s)) (data s) (fresh s)
                             (items s @ its) (items s))"
  using assms
  by (simp_all add: push_state notify_fields in_place_def items_def sl_inv_def)

lemma unshift_fields:
  assumes "sl_inv s"
  shows "fst (sl_unshift thr its s) =
           completes (if frozen s then None else raised thr (watchers s))
             (length its + length (items s))"
    and "items (snd (sl_unshift thr its s)) = its @ items s"
    and "calls (snd (sl_unshift thr its s)) =
           calls s @ (if frozen s then []
                      else notification (reached thr (watchers s)) (data s) (fresh s)
                             (its @ items s) (items s))"
  using assms
  by (simp_all add: unshift_state notify_fields in_place_def items_def sl_inv_def)

text \<open>
  C4 at a call with no item, on the list \<open>[1, 2]\<close> with one watcher: \<^verbatim>\<open>push()\<close> returns
  the length 2, leaves the sequence as it is and calls the watcher with the unchanged
  sequence and its copy; \<^verbatim>\<open>unshift()\<close> does the same. The guard on the number of items
  that \<^verbatim>\<open>splice\<close> has is missing in both.
\<close>

theorem push_without_items_notifies:
  "fst (sl_push no_throw [] (watched [1, 2])) = Inr 2 \<and>
   items (snd (sl_push no_throw [] (watched [1, 2]))) = [1, 2] \<and>
   calls (snd (sl_push no_throw [] (watched [1, 2]))) =
     [\<lparr>who = ''w'', newRef = 2, oldRef = 3, newSeen = [1, 2], oldSeen = [1, 2]\<rparr>] \<and>
   fst (sl_unshift no_throw [] (watched [1, 2])) = Inr 2 \<and>
   calls (snd (sl_unshift no_throw [] (watched [1, 2]))) =
     [\<lparr>who = ''w'', newRef = 2, oldRef = 3, newSeen = [1, 2], oldSeen = [1, 2]\<rparr>]"
  by (simp add: push_state unshift_state watched_fields notify_fields in_place_def
      notification_def items_def completes_def no_throw_def)

subsection \<open>filterBy\<close>

text \<open>The sequence kept is the one the predicate selects; for a predicate of the element
  alone the array returned holds the removed elements.\<close>

lemma length_filter_from: "length (filter_from i p xs) \<le> length xs"
  by (induction xs arbitrary: i) (simp_all add: le_SucI)

lemma filter_from_same_length:
  "length (filter_from i p xs) = length xs \<Longrightarrow> filter_from i p xs = xs"
proof (induction xs arbitrary: i)
  case Nil
  then show ?case by simp
next
  case (Cons x xs)
  show ?case
  proof (cases "p x i")
    case True
    with Cons show ?thesis by simp
  next
    case False
    with Cons.prems length_filter_from [of "Suc i" p xs] show ?thesis by simp
  qed
qed

lemma filter_from_element: "filter_from i (\<lambda>item _. p item) xs = filter p xs"
  by (induction xs arbitrary: i) simp_all

lemma set_filter_from: "set (filter_from i p xs) \<subseteq> set xs"
  by (induction xs arbitrary: i) auto

lemma filterBy_retains:
  assumes "sl_inv s"
  shows "items (snd (sl_filterBy thr callback s)) = array_filter callback (items s)"
proof -
  let ?kept = "array_filter callback (items s)"
  let ?removed = "array_filter (\<lambda>item _ _. item \<notin> set ?kept) (items s)"
  show ?thesis
  proof (cases "?removed \<noteq> [] \<or> length ?kept \<noteq> length (items s)")
    case True
    with assms show ?thesis
      by (simp add: filterBy_state Let_def notify_fields replaced_def items_def)
  next
    case False
    then have "?kept = items s"
      by (simp add: array_filter_def filter_from_same_length)
    with False assms show ?thesis
      by (simp add: filterBy_state Let_def replaced_def items_def sl_inv_def)
  qed
qed

text \<open>
  C8 at the list \<open>[7, 7]\<close> with the predicate that keeps index 0 only: \<^verbatim>\<open>filterBy\<close>
  keeps one element, removes the other and notifies, but returns the empty array, since
  it computes the removed elements as those that do not occur in the kept array.
  \<^verbatim>\<open>remove\<close> with the negated predicate returns the removed element.
\<close>

theorem filterBy_omits_removed_duplicate:
  "fst (sl_filterBy no_throw first_only (watched [7, 7])) = Inr [] \<and>
   items (snd (sl_filterBy no_throw first_only (watched [7, 7]))) = [7] \<and>
   calls (snd (sl_filterBy no_throw first_only (watched [7, 7]))) =
     [\<lparr>who = ''w'', newRef = 4, oldRef = 3, newSeen = [7], oldSeen = [7, 7]\<rparr>] \<and>
   fst (sl_remove no_throw (\<lambda>item index arr. \<not> first_only item index arr) (watched [7, 7])) =
     Inr [7]"
  by (simp add: filterBy_state remove_state watched_fields notify_fields replaced_def
      notification_def items_def array_filter_def first_only_def Let_def completes_def
      no_throw_def)

subsection \<open>The whole-value setter and getter\<close>




subsection \<open>pause and begin\<close>

lemma same_store_items: "same_store t u \<Longrightarrow> items t = items u"
  by (simp add: same_store_def items_def)

lemma same_store_inv: "same_store t u \<Longrightarrow> sl_inv t = sl_inv u"
  by (simp add: same_store_def sl_inv_def)

lemma same_store_mutate:
  assumes "sl_inv t" and "same_store t u"
  shows "same_store (mutate thr J m t) (mutate thr J m u)"
proof -
  from assms have iu: "sl_inv u" by (simp add: same_store_inv)
  from assms(2) have eq: "arrays u = arrays t" "fresh u = fresh t" "data u = data t"
    "frozenValue u = frozenValue t" "watchers u = watchers t" "items u = items t"
    by (simp_all add: same_store_def items_def)
  show ?thesis
    using assms(1) iu
    by (cases m)
       (simp_all add: mutator_states notify_fields in_place_def replaced_def Let_def
          same_store_def eq)
qed

lemma same_store_mutate_all:
  "sl_inv t \<Longrightarrow> same_store t u \<Longrightarrow>
     same_store (mutate_all thr J ms t) (mutate_all thr J ms u)"
proof (induction ms arbitrary: t u)
  case Nil
  then show ?case by (simp add: mutate_all_def)
next
  case (Cons m ms)
  have "same_store (mutate_all thr J ms (mutate thr J m t)) (mutate_all thr J ms (mutate thr J m u))"
    using Cons.prems by (intro Cons.IH inv_mutate same_store_mutate)
  then show ?case by (simp add: mutate_all_def)
qed

lemma pause_fields:
  "sl_inv s \<Longrightarrow>
     frozen (sl_pause s) \<and> sl_inv (sl_pause s) \<and> calls (sl_pause s) = calls s \<and>
     watchers (sl_pause s) = watchers s \<and> frozenValue (sl_pause s) = fresh s \<and>
     arrays (sl_pause s) (fresh s) = items s \<and> items (sl_pause s) = items s"
  by (simp add: sl_pause_def array_ops Let_def sl_inv_def items_def)

text \<open>
  C2, as stated, at its example: from \<open>[1, 2, 3]\<close> the calls \<^verbatim>\<open>pause()\<close>, \<^verbatim>\<open>push(4)\<close>,
  \<^verbatim>\<open>shift()\<close>, \<^verbatim>\<open>push(5)\<close>, \<^verbatim>\<open>begin()\<close> end in one call of the watcher, with the old
  sequence \<open>[1, 2, 3]\<close> and the new sequence \<open>[2, 3, 4, 5]\<close>, not \<open>[2, 4, 5]\<close>:
  \<^verbatim>\<open>shift()\<close> removes the first element only.
\<close>

theorem pause_begin_example_counterexample:
  "calls (snd (sl_begin no_throw
      (mutate_all no_throw int_lang [Push [4], Shift, Push [5]]
         (sl_pause (watched [1, 2, 3]))))) =
     [\<lparr>who = ''w'', newRef = 2, oldRef = 3, newSeen = [2, 3, 4, 5], oldSeen = [1, 2, 3]\<rparr>] \<and>
   newSeen (hd (calls (snd (sl_begin no_throw
      (mutate_all no_throw int_lang [Push [4], Shift, Push [5]]
         (sl_pause (watched [1, 2, 3]))))))) \<noteq> [2, 4, 5]"
  by (simp add: sl_begin_def mutate_all_def sl_push_def sl_shift_def sl_pause_def array_ops
      notify_def items_def Let_def watched_fields no_throw_def completes_def)

text \<open>
  C2, amended. After \<^verbatim>\<open>pause()\<close>, whatever mutators run, no watcher is called, and
  the sequence they leave is the one the same mutators leave on the list that is not
  paused. The next \<^verbatim>\<open>begin()\<close> makes one notification, with the array of the
  collection, holding the sequence after all the mutators, and the snapshot array,
  holding the sequence at the moment of the pause: it calls the watchers in the order of
  their registration up to the first that throws, every watcher once when all return
  normally. On the example the new sequence is \<open>[2, 3, 4, 5]\<close>.
\<close>

theorem pause_begin_coalesces:
  assumes "sl_inv s"
  shows "calls (mutate_all thr J ms (sl_pause s)) = calls s \<and>
         items (mutate_all thr J ms (sl_pause s)) =
           items (mutate_all thr J ms ((sl_pause s)\<lparr>frozen := False\<rparr>)) \<and>
         calls (snd (sl_begin thr (mutate_all thr J ms (sl_pause s)))) =
           calls s @
           notification (reached thr (watchers s)) (data (mutate_all thr J ms (sl_pause s)))
             (frozenValue (sl_pause s)) (items (mutate_all thr J ms (sl_pause s))) (items s) \<and>
         fst (sl_begin thr (mutate_all thr J ms (sl_pause s))) = raised thr (watchers s) \<and>
         ((\<forall>w \<in> set (watchers s). thr w = None) \<longrightarrow>
            calls (snd (sl_begin thr (mutate_all thr J ms (sl_pause s)))) =
              calls s @
              notification (watchers s) (data (mutate_all thr J ms (sl_pause s)))
                (frozenValue (sl_pause s)) (items (mutate_all thr J ms (sl_pause s))) (items s) \<and>
            fst (sl_begin thr (mutate_all thr J ms (sl_pause s))) = None) \<and>
         \<not> frozen (snd (sl_begin thr (mutate_all thr J ms (sl_pause s))))"
proof -
  let ?p = "sl_pause s"
  let ?q = "mutate_all thr J ms ?p"
  from assms have p: "frozen ?p" "sl_inv ?p" "calls ?p = calls s" "watchers ?p = watchers s"
    "frozenValue ?p = fresh s" "arrays ?p (fresh s) = items s"
    using pause_fields [of s] by simp_all
  from mutate_all_paused [OF p(2) p(1), of thr J ms]
  have q: "calls ?q = calls s" "watchers ?q = watchers s" "frozenValue ?q = fresh s"
    "arrays ?q (fresh s) = items s"
    by (simp_all add: p)
  have "same_store ?p (?p\<lparr>frozen := False\<rparr>)" by (simp add: same_store_def)
  with p(2) have "same_store ?q (mutate_all thr J ms (?p\<lparr>frozen := False\<rparr>))"
    by (rule same_store_mutate_all)
  then have upd: "items ?q = items (mutate_all thr J ms (?p\<lparr>frozen := False\<rparr>))"
    by (rule same_store_items)
  have beg: "calls (snd (sl_begin thr ?q)) =
      calls s @ notification (reached thr (watchers s)) (data ?q) (fresh s) (items ?q) (items s)"
    by (simp add: sl_begin_def notify_fields Let_def q items_def)
  have exc: "fst (sl_begin thr ?q) = raised thr (watchers s)"
    by (simp add: sl_begin_def notify_fields Let_def q)
  from beg exc have normal: "(\<forall>w \<in> set (watchers s). thr w = None) \<longrightarrow>
      calls (snd (sl_begin thr ?q)) =
        calls s @ notification (watchers s) (data ?q) (fresh s) (items ?q) (items s) \<and>
      fst (sl_begin thr ?q) = None"
    by (simp add: reached_all raised_none)
  have unf: "\<not> frozen (snd (sl_begin thr ?q))"
    by (simp add: sl_begin_def notify_fields Let_def)
  from q(1) upd beg exc normal unf show ?thesis
    unfolding p(5) by blast
qed

theorem pause_begin_coalesces_witness:
  "calls (mutate_all no_throw int_lang [Push [4], Shift, Push [5]]
            (sl_pause (watched [1, 2, 3]))) = [] \<and>
   items (mutate_all no_throw int_lang [Push [4], Shift, Push [5]]
            (sl_pause (watched [1, 2, 3]))) = [2, 3, 4, 5] \<and>
   calls (snd (sl_begin no_throw
      (mutate_all no_throw int_lang [Push [4], Shift, Push [5]]
         (sl_pause (watched [1, 2, 3]))))) =
     [\<lparr>who = ''w'', newRef = 2, oldRef = 3, newSeen = [2, 3, 4, 5], oldSeen = [1, 2, 3]\<rparr>] \<and>
   fst (sl_begin no_throw
      (mutate_all no_throw int_lang [Push [4], Shift, Push [5]]
         (sl_pause (watched [1, 2, 3])))) = None"
proof -
  let ?s = "watched [1, 2, 3]"
  let ?ms = "[Push [4], Shift, Push [5]] :: int mutator list"
  let ?q = "mutate_all no_throw int_lang ?ms (sl_pause ?s)"
  have inv: "sl_inv ?s" by (simp add: watched_fields)
  note t = pause_begin_coalesces
    [where s = ?s and ms = ?ms and thr = no_throw and J = int_lang, OF inv]
  have quiet: "\<forall>w \<in> set (watchers ?s). no_throw w = None" by (simp add: no_throw_def)
  have p: "frozenValue (sl_pause ?s) = 3"
    by (simp add: sl_pause_def array_ops Let_def watched_fields)
  have q: "items ?q = [2, 3, 4, 5]" "data ?q = 2"
    by (simp_all add: mutate_all_def sl_push_def sl_shift_def sl_pause_def array_ops
        notify_def items_def Let_def watched_fields)
  from t have a: "calls ?q = calls ?s" by blast
  from t quiet have b: "calls (snd (sl_begin no_throw ?q)) =
      calls ?s @ notification (watchers ?s) (data ?q) (frozenValue (sl_pause ?s))
        (items ?q) (items ?s)"
    and c: "fst (sl_begin no_throw ?q) = None"
    by blast+
  show ?thesis
    by (simp add: a b c q p watched_fields notification_def)
qed

subsection \<open>Arrays handed out\<close>

lemma read_value_items: "read_value s = items s"
  by (simp add: read_value_def sl_get_value_def array_ops items_def)

lemma after_push_fields:
  "calls after_push =
     [\<lparr>who = ''w'', newRef = 2, oldRef = 3, newSeen = [1, 2, 3, 4], oldSeen = [1, 2, 3]\<rparr>]"
  "data after_push = 2" "items after_push = [1, 2, 3, 4]" "fresh after_push = 4"
  "arrays after_push 3 = [1, 2, 3]" "arrays after_push 2 = [1, 2, 3, 4]"
  by (simp_all add: after_push_def push_state watched_fields notify_fields in_place_def
      notification_def items_def no_throw_def)

lemma resumed_fields:
  "calls resumed =
     [\<lparr>who = ''w'', newRef = 2, oldRef = 3, newSeen = [1, 2, 3], oldSeen = [1, 2, 3]\<rparr>]"
  "data resumed = 2" "frozenValue resumed = 3" "fresh resumed = 4" "\<not> frozen resumed"
  "arrays resumed = (\<lambda>_. [])(0 := [1, 2, 3], 1 := [], 2 := [1, 2, 3], 3 := [1, 2, 3])"
  "watchers resumed = [''w'']" "sl_inv resumed"
  by (simp_all add: resumed_def sl_begin_def sl_pause_def array_ops Let_def watched_fields
      notify_fields notification_def no_throw_def sl_inv_def)

text \<open>
  C3, as stated. After \<^verbatim>\<open>push(4)\<close> on \<open>[1, 2, 3]\<close> with one watcher, the new sequence
  the watcher received is the array of the collection itself: when the watcher (or
  whoever it passed the array to) pushes 99 onto it, the sequence of the collection is
  \<open>[1, 2, 3, 4, 99]\<close>, and so is what a later read of \<^verbatim>\<open>.value\<close> gives. After
  \<^verbatim>\<open>pause()\<close> and \<^verbatim>\<open>begin()\<close> on \<open>[1, 2, 3]\<close>, the old sequence the watcher received is
  the snapshot array that the collection keeps: when 99 is pushed onto it, the snapshot
  is \<open>[1, 2, 3, 99]\<close>, and that is the old sequence the next \<^verbatim>\<open>begin()\<close> delivers.
\<close>

theorem handed_out_arrays_are_copies_counterexample:
  "newRef (hd (calls after_push)) = data after_push \<and>
   items after_push = [1, 2, 3, 4] \<and>
   items (snd (array_push (newRef (hd (calls after_push))) [99] after_push)) =
     [1, 2, 3, 4, 99] \<and>
   read_value (snd (array_push (newRef (hd (calls after_push))) [99] after_push)) =
     [1, 2, 3, 4, 99] \<and>
   oldRef (hd (calls resumed)) = frozenValue resumed \<and>
   arrays resumed (frozenValue resumed) = [1, 2, 3] \<and>
   arrays (snd (array_push (oldRef (hd (calls resumed))) [99] resumed)) (frozenValue resumed) =
     [1, 2, 3, 99] \<and>
   oldSeen (last (calls (snd (sl_begin no_throw
      (snd (array_push (oldRef (hd (calls resumed))) [99] resumed)))))) = [1, 2, 3, 99]"
  by (simp add: after_push_fields resumed_fields array_ops read_value_def sl_get_value_def
      items_def sl_begin_def notify_def no_throw_def Let_def)

text \<open>
  C3, amended. The array that a read of \<^verbatim>\<open>.value\<close> returns is a new array with the
  content of the sequence: it is neither the array of the collection nor the snapshot,
  and writing to it leaves the sequence, and what the next read gives, as they are. In
  every notification the new sequence is the array of the collection itself and the old
  sequence is another array: writing to the old sequence leaves the sequence, and what
  the next read gives, as they are. The old sequence of a mutator is not the snapshot
  either; the old sequence of \<^verbatim>\<open>begin()\<close> is the snapshot array.
\<close>

theorem reads_and_old_sequences_are_copies:
  assumes "sl_inv s"
  shows "fst (sl_get_value s) \<noteq> data (snd (sl_get_value s)) \<and>
         fst (sl_get_value s) \<noteq> frozenValue (snd (sl_get_value s)) \<and>
         arrays (snd (sl_get_value s)) (fst (sl_get_value s)) = items s \<and>
         items (array_write (fst (sl_get_value s)) xs (snd (sl_get_value s))) = items s \<and>
         read_value (array_write (fst (sl_get_value s)) xs (snd (sl_get_value s))) = items s \<and>
         (\<forall>c \<in> set (calls_since s (mutate thr J m s)).
            newRef c = data (mutate thr J m s) \<and>
            oldRef c \<noteq> data (mutate thr J m s) \<and>
            oldRef c \<noteq> frozenValue (mutate thr J m s) \<and>
            items (array_write (oldRef c) xs (mutate thr J m s)) = items (mutate thr J m s) \<and>
            read_value (array_write (oldRef c) xs (mutate thr J m s)) =
              read_value (mutate thr J m s)) \<and>
         (\<forall>c \<in> set (calls_since s (snd (sl_begin thr s))).
            newRef c = data (snd (sl_begin thr s)) \<and>
            oldRef c \<noteq> data (snd (sl_begin thr s)) \<and>
            oldRef c = frozenValue (snd (sl_begin thr s)) \<and>
            items (array_write (oldRef c) xs (snd (sl_begin thr s))) =
              items (snd (sl_begin thr s)) \<and>
            read_value (array_write (oldRef c) xs (snd (sl_begin thr s))) =
              read_value (snd (sl_begin thr s)))"
proof -
  let ?t = "mutate thr J m s" and ?b = "snd (sl_begin thr s)"
  from assms have getter:
    "fst (sl_get_value s) \<noteq> data (snd (sl_get_value s))"
    "fst (sl_get_value s) \<noteq> frozenValue (snd (sl_get_value s))"
    "arrays (snd (sl_get_value s)) (fst (sl_get_value s)) = items s"
    "items (array_write (fst (sl_get_value s)) xs (snd (sl_get_value s))) = items s"
    "read_value (array_write (fst (sl_get_value s)) xs (snd (sl_get_value s))) = items s"
    by (auto simp add: read_value_items sl_get_value_def array_ops items_def sl_inv_def)
  from mutate_new_calls [OF assms, of thr J m] obtain n where
    n: "calls ?t = calls s @ n"
    and refs: "\<forall>c \<in> set n. newRef c = data ?t \<and> oldRef c \<noteq> data ?t \<and> oldRef c \<noteq> frozenValue ?t"
    by blast
  have "\<forall>c \<in> set n. newRef c = data ?t \<and> oldRef c \<noteq> data ?t \<and> oldRef c \<noteq> frozenValue ?t \<and>
          items (array_write (oldRef c) xs ?t) = items ?t \<and>
          read_value (array_write (oldRef c) xs ?t) = read_value ?t"
    using refs by (auto simp add: read_value_items array_write_def items_def)
  then have old: "\<forall>c \<in> set (calls_since s ?t).
      newRef c = data ?t \<and> oldRef c \<noteq> data ?t \<and> oldRef c \<noteq> frozenValue ?t \<and>
      items (array_write (oldRef c) xs ?t) = items ?t \<and>
      read_value (array_write (oldRef c) xs ?t) = read_value ?t"
    by (simp add: n calls_since_def)
  from assms have resume: "\<forall>c \<in> set (calls_since s ?b).
      newRef c = data ?b \<and> oldRef c \<noteq> data ?b \<and> oldRef c = frozenValue ?b \<and>
      items (array_write (oldRef c) xs ?b) = items ?b \<and>
      read_value (array_write (oldRef c) xs ?b) = read_value ?b"
    by (auto simp add: calls_since_def sl_begin_def notify_fields Let_def notification_def
        read_value_items array_write_def items_def sl_inv_def)
  from getter old resume show ?thesis by blast
qed

theorem reads_and_old_sequences_are_copies_witness:
  "fst (sl_get_value (watched [1, 2, 3])) = 3 \<and>
   items (array_write 3 [0] (snd (sl_get_value (watched [1, 2, 3])))) = [1, 2, 3] \<and>
   oldRef (hd (calls (mutate no_throw int_lang (Push [4]) (watched [1, 2, 3])))) = 3 \<and>
   items (array_write 3 [0] (mutate no_throw int_lang (Push [4]) (watched [1, 2, 3]))) =
     [1, 2, 3, 4] \<and>
   read_value (array_write 3 [0] (mutate no_throw int_lang (Push [4]) (watched [1, 2, 3]))) =
     [1, 2, 3, 4] \<and>
   oldRef (hd (calls (snd (sl_begin no_throw (sl_pause (watched [1, 2, 3])))))) = 3 \<and>
   read_value (array_write 3 [0] (snd (sl_begin no_throw (sl_pause (watched [1, 2, 3]))))) =
     [1, 2, 3]"
proof -
  let ?s = "watched [1, 2, 3]"
  let ?p = "sl_pause (watched [1, 2, 3])"
  let ?c = "\<lparr>who = ''w'', newRef = 2, oldRef = 3, newSeen = [1, 2, 3, 4], oldSeen = [1, 2, 3]\<rparr>
            :: (int, string) list_call"
  let ?d = "\<lparr>who = ''w'', newRef = 2, oldRef = 3, newSeen = [1, 2, 3], oldSeen = [1, 2, 3]\<rparr>
            :: (int, string) list_call"
  have inv: "sl_inv ?s" by (simp add: watched_fields)
  then have pinv: "sl_inv ?p" by (rule inv_pause)
  have m: "mutate no_throw int_lang (Push [4]) ?s = after_push" by (simp add: after_push_def)
  have r: "snd (sl_begin no_throw ?p) = resumed" by (simp add: resumed_def)
  have pc: "calls ?p = []" using pause_fields [OF inv] by (simp add: watched_fields)
  have g: "fst (sl_get_value ?s) = 3"
    by (simp add: sl_get_value_def array_ops watched_fields)
  have mem: "?c \<in> set (calls_since ?s (mutate no_throw int_lang (Push [4]) ?s))"
    unfolding m by (simp add: calls_since_def after_push_fields watched_fields)
  have memb: "?d \<in> set (calls_since ?p (snd (sl_begin no_throw ?p)))"
    unfolding r by (simp add: calls_since_def resumed_fields pc)
  note t = reads_and_old_sequences_are_copies
    [where s = ?s and xs = "[0]" and m = "Push [4]" and thr = no_throw and J = int_lang, OF inv]
  note u = reads_and_old_sequences_are_copies
    [where s = ?p and xs = "[0]" and m = "Push [4]" and thr = no_throw and J = int_lang, OF pinv]
  from t have a: "items (array_write (fst (sl_get_value ?s)) [0] (snd (sl_get_value ?s))) =
      items ?s"
    by blast
  from t mem have b: "items (array_write (oldRef ?c) [0] (mutate no_throw int_lang (Push [4]) ?s)) =
      items (mutate no_throw int_lang (Push [4]) ?s)"
    and b2: "read_value (array_write (oldRef ?c) [0] (mutate no_throw int_lang (Push [4]) ?s)) =
      read_value (mutate no_throw int_lang (Push [4]) ?s)"
    by blast+
  from u memb have e: "read_value (array_write (oldRef ?d) [0] (snd (sl_begin no_throw ?p))) =
      read_value (snd (sl_begin no_throw ?p))"
    by blast
  from a have a': "items (array_write 3 [0] (snd (sl_get_value ?s))) = [1, 2, 3]"
    by (simp add: g watched_fields)
  from b [unfolded m] have b': "items (array_write 3 [0] after_push) = [1, 2, 3, 4]"
    by (simp add: after_push_fields)
  from b2 [unfolded m] have b2': "read_value (array_write 3 [0] after_push) = [1, 2, 3, 4]"
    by (simp add: read_value_items after_push_fields)
  from e [unfolded r] have e': "read_value (array_write 3 [0] resumed) = [1, 2, 3]"
    by (simp add: read_value_items items_def resumed_fields)
  show ?thesis
    unfolding m r by (simp add: g a' b' b2' e' after_push_fields resumed_fields)
qed

subsection \<open>Sorting\<close>























subsection \<open>orderBy\<close>







end
